theory Spec2Isabelle
  imports Main "HOL-Library.Word"
begin

section \<open>tzhttpd: URI routing table (HttpHandler.h)\<close>

text \<open>
  A shallow embedding of \<^verbatim>\<open>src/HttpHandler.h\<close>: the handler record
  \<^verbatim>\<open>HttpHandlerObject\<close>, the pattern \<^verbatim>\<open>UriRegex\<close>, path normalisation
  \<^verbatim>\<open>pure_uri_path\<close> and the three template members
  \<^verbatim>\<open>do_check_exist_http_handler\<close>, \<^verbatim>\<open>do_switch_http_handler\<close> and
  \<^verbatim>\<open>do_update_http_handler\<close>, with the lock they take. The header only declares
  the find and register members; they are modelled from the specification, and marked so.

  Behaviour that C++ leaves undefined is a value of type \<open>error\<close>: reading a
  \<^verbatim>\<open>std::string\<close> beyond its terminator, and dereferencing an empty
  \<^verbatim>\<open>shared_ptr\<close>. Logging calls have no effect on the table and are left out.
\<close>

subsection \<open>Errors\<close>

datatype error = OutOfBounds | NullDereference

subsection \<open>Characters and strings\<close>

text \<open>
  \<^verbatim>\<open>boost::to_lower_copy\<close> and \<^verbatim>\<open>boost::algorithm::trim_copy\<close> are called with the
  default locale. In the classic "C" locale \<^verbatim>\<open>isspace\<close> accepts the space and the
  bytes 9 to 13, and \<^verbatim>\<open>tolower\<close> moves the bytes 65 to 90 (A to Z) up by 32 and
  leaves every other byte alone.
\<close>

definition is_space :: "char \<Rightarrow> bool" where
  "is_space c = (let n = (of_char c :: nat) in n = 32 \<or> (9 \<le> n \<and> n \<le> 13))"

definition to_lower :: "char \<Rightarrow> char" where
  "to_lower c =
     (let n = (of_char c :: nat) in if 65 \<le> n \<and> n \<le> 90 then char_of (n + 32) else c)"

definition to_lower_copy :: "string \<Rightarrow> string" where
  "to_lower_copy s = map to_lower s"

text \<open>\<^verbatim>\<open>trim_copy\<close> cuts the white space at the end, then the white space at the front.\<close>

definition trim_copy :: "string \<Rightarrow> string" where
  "trim_copy s = dropWhile is_space (rev (dropWhile is_space (rev s)))"

text \<open>
  \<^verbatim>\<open>uri.size()-1\<close> is computed in \<^verbatim>\<open>size_t\<close> (64 bits): a size is below \<open>2 ^ 64\<close>,
  so the subtraction wraps exactly when the size is 0, to \<^verbatim>\<open>SIZE_MAX\<close>.
\<close>

definition SIZE_MAX :: nat where
  "SIZE_MAX = 2 ^ 64 - 1"

definition size_minus_one :: "nat \<Rightarrow> nat" where
  "size_minus_one n = (if n = 0 then SIZE_MAX else n - 1)"

text \<open>
  \<^verbatim>\<open>std::string::operator[](pos)\<close>: the character at \<open>pos\<close> when \<open>pos < size()\<close>,
  the terminating null character when \<open>pos = size()\<close>, undefined beyond.
\<close>

definition string_at :: "string \<Rightarrow> nat \<Rightarrow> error + char" where
  "string_at s pos =
     (if pos < length s then Inr (s ! pos)
      else if pos = length s then Inr (CHR 0x00)
      else Inl OutOfBounds)"

subsection \<open>Path normalisation\<close>

text \<open>
  \<^verbatim>\<open>
  std::string pure_uri_path(std::string uri) {
      uri = boost::algorithm::trim_copy(boost::to_lower_copy(uri));
      while (uri[uri.size()-1] == '/' && uri.size() > 1)
          uri = uri.substr(0, uri.size()-1);
      return uri;
  }
  \<close>
  The loop condition reads the last character first and tests the size second.
  \<^verbatim>\<open>substr(0, n)\<close> with \<open>n \<le> size()\<close> is \<open>take n\<close>.
\<close>

function pure_uri_path_loop :: "string \<Rightarrow> error + string" where
  "pure_uri_path_loop uri =
     (case string_at uri (size_minus_one (length uri)) of
        Inl e \<Rightarrow> Inl e
      | Inr c \<Rightarrow>
          if c = CHR ''/'' \<and> length uri > 1
          then pure_uri_path_loop (take (length uri - 1) uri)
          else Inr uri)"
  by pat_completeness auto
termination
  by (relation "measure length") auto

definition pure_uri_path :: "string \<Rightarrow> error + string" where
  "pure_uri_path uri = pure_uri_path_loop (trim_copy (to_lower_copy uri))"

subsection \<open>Handler records and tables\<close>

text \<open>
  \<^verbatim>\<open>HttpHandlerObject<T>\<close>: the two counters are \<^verbatim>\<open>int64_t\<close>. The constructor sets
  \<^verbatim>\<open>built_in_(built_in), success_cnt_(0), fail_cnt_(0), working_(true), handler_(t)\<close>.
  A name cannot end in an underscore here, so the member \<^verbatim>\<open>working_\<close> is the field
  \<open>working\<close>, and likewise for the others.
\<close>

record 'h HttpHandlerObject =
  built_in :: bool
  success_cnt :: "64 word"
  fail_cnt :: "64 word"
  working :: bool
  handler :: 'h

definition new_HttpHandlerObject :: "'h \<Rightarrow> bool \<Rightarrow> 'h HttpHandlerObject" where
  "new_HttpHandlerObject t is_built_in =
     \<lparr>built_in = is_built_in, success_cnt = 0, fail_cnt = 0, working = True, handler = t\<rparr>"

text \<open>
  \<^verbatim>\<open>UriRegex\<close> is a \<^verbatim>\<open>boost::regex\<close> compiled from \<^verbatim>\<open>regexStr\<close> that keeps the text in
  \<^verbatim>\<open>str_\<close>; \<^verbatim>\<open>str()\<close> returns it. The compiled expression is a function of the text.
\<close>

datatype UriRegex = UriRegex (str: string)

text \<open>
  A table is the \<^verbatim>\<open>std::vector<std::pair<UriRegex, Ptr>>\<close> in registration order. Every
  entry holds a record of its own (a non-null pointer, not shared with another entry), so
  the pointer is modelled by the record it points to.
\<close>

type_synonym 'h handlers = "(UriRegex \<times> 'h HttpHandlerObject) list"

subsection \<open>do_check_exist_http_handler\<close>

fun do_check_exist_loop :: "string \<Rightarrow> 'h handlers \<Rightarrow> bool" where
  "do_check_exist_loop uri [] = False"
| "do_check_exist_loop uri (it # rest) =
     (if str (fst it) = uri then True else do_check_exist_loop uri rest)"

definition do_check_exist_http_handler :: "string \<Rightarrow> 'h handlers \<Rightarrow> error + bool" where
  "do_check_exist_http_handler uri_r handlers =
     (case pure_uri_path uri_r of
        Inl e \<Rightarrow> Inl e
      | Inr uri \<Rightarrow> Inr (do_check_exist_loop uri handlers))"

subsection \<open>do_switch_http_handler\<close>

text \<open>
  The loop returns from inside at the first entry whose text is \<open>uri\<close>: \<open>-1\<close> when the
  flag already has the value asked for, \<open>0\<close> after storing the new value; \<open>-2\<close> after the
  loop when no entry has that text. The result is the return code and the table.
\<close>

fun do_switch_loop :: "string \<Rightarrow> bool \<Rightarrow> 'h handlers \<Rightarrow> int \<times> 'h handlers" where
  "do_switch_loop uri on [] = (- 2, [])"
| "do_switch_loop uri on (it # rest) =
     (if str (fst it) = uri then
        (if working (snd it) = on then (- 1, it # rest)
         else (0, (fst it, (snd it)\<lparr>working := on\<rparr>) # rest))
      else (case do_switch_loop uri on rest of (rc, rest') \<Rightarrow> (rc, it # rest')))"

definition do_switch_http_handler ::
  "string \<Rightarrow> bool \<Rightarrow> 'h handlers \<Rightarrow> error + (int \<times> 'h handlers)" where
  "do_switch_http_handler uri_r on handlers =
     (case pure_uri_path uri_r of
        Inl e \<Rightarrow> Inl e
      | Inr uri \<Rightarrow> Inr (do_switch_loop uri on handlers))"

subsection \<open>do_update_http_handler\<close>

text \<open>
  The search loop leaves \<^verbatim>\<open>p_handler_object\<close> empty (\<open>None\<close>) or pointing to the record
  of the first entry whose text is \<open>uri\<close>.
\<close>

fun do_update_lookup :: "string \<Rightarrow> 'h handlers \<Rightarrow> 'h HttpHandlerObject option" where
  "do_update_lookup uri [] = None"
| "do_update_lookup uri (it # rest) =
     (if str (fst it) = uri then Some (snd it) else do_update_lookup uri rest)"

text \<open>
  \<^verbatim>\<open>
  int retry_count = 10;
  while (p_handler_object.use_count() > 2 && -- retry_count > 0) { ::usleep(1000); }
  \<close>
  Other threads change the reference count while this one polls it. The argument
  \<open>use_count k\<close> is the value that the \<open>k\<close>-th call of \<^verbatim>\<open>use_count()\<close> returns, counted
  from 0. With no request inside the handler the count is 2: the table's pointer and
  \<^verbatim>\<open>p_handler_object\<close>. The loop returns the number of calls made so far and the number
  of \<^verbatim>\<open>usleep\<close> calls; \<^verbatim>\<open>--retry_count\<close> is evaluated only when the count is above 2.
\<close>

function do_update_wait :: "(nat \<Rightarrow> int) \<Rightarrow> nat \<Rightarrow> int \<Rightarrow> nat \<Rightarrow> nat \<times> nat" where
  "do_update_wait use_count k retry_count sleeps =
     (if use_count k > 2 \<and> retry_count - 1 > 0
      then do_update_wait use_count (Suc k) (retry_count - 1) (Suc sleeps)
      else (Suc k, sleeps))"
  by pat_completeness auto
termination
  by (relation "measure (\<lambda>(use_count, k, retry_count, sleeps). nat retry_count)") auto

text \<open>\<^verbatim>\<open>handlers.erase(it)\<close> removes the element at the position of the iterator.\<close>

definition erase :: "nat \<Rightarrow> 'a list \<Rightarrow> 'a list" where
  "erase pos xs = take pos xs @ drop (Suc pos) xs"

text \<open>
  \<^verbatim>\<open>
  auto it = handlers.begin();
  for (auto it = handlers.begin(); it != handlers.end(); ++ it) { ... }
  \<close>
  The loop declares an iterator of its own, so the outer \<^verbatim>\<open>it\<close> is still
  \<^verbatim>\<open>handlers.begin()\<close>, position 0, at \<^verbatim>\<open>handlers.erase(it)\<close>.
  \<^verbatim>\<open>p_handler_object->built_in_\<close> is read before the test \<^verbatim>\<open>if (p_handler_object)\<close>.
  The parameter \<^verbatim>\<open>on\<close> is not used. The result is the return code, the table and the
  number of \<^verbatim>\<open>usleep(1000)\<close> calls made.
\<close>

definition do_update_http_handler ::
  "(nat \<Rightarrow> int) \<Rightarrow> string \<Rightarrow> bool \<Rightarrow> 'h handlers \<Rightarrow> error + (int \<times> 'h handlers \<times> nat)" where
  "do_update_http_handler use_count uri_r on handlers =
     (case pure_uri_path uri_r of
        Inl e \<Rightarrow> Inl e
      | Inr uri \<Rightarrow>
          (case do_update_lookup uri handlers of
             None \<Rightarrow> Inl NullDereference
           | Some p_handler_object \<Rightarrow>
               if built_in p_handler_object then Inr (- 1, handlers, 0)
               else
                 (case do_update_wait use_count 0 10 0 of
                    (k, sleeps) \<Rightarrow>
                      if use_count k > 2 then Inr (- 2, handlers, sleeps)
                      else Inr (- 2, erase 0 handlers, sleeps))))"

subsection \<open>The lock of the two tables\<close>

text \<open>
  \<^verbatim>\<open>boost::shared_mutex\<close>: any number of shared owners or one exclusive owner. A call
  that cannot take the lock at once blocks its thread; here it returns \<open>None\<close>.
\<close>

record shared_mutex =
  shared_count :: nat
  exclusive :: bool

definition lock_shared :: "shared_mutex \<Rightarrow> shared_mutex option" where
  "lock_shared m =
     (if exclusive m then None else Some (m\<lparr>shared_count := Suc (shared_count m)\<rparr>))"

definition lock :: "shared_mutex \<Rightarrow> shared_mutex option" where
  "lock m =
     (if exclusive m \<or> shared_count m > 0 then None else Some (m\<lparr>exclusive := True\<rparr>))"

definition unlock_shared :: "shared_mutex \<Rightarrow> shared_mutex" where
  "unlock_shared m = m\<lparr>shared_count := shared_count m - 1\<rparr>"

definition unlock :: "shared_mutex \<Rightarrow> shared_mutex" where
  "unlock m = m\<lparr>exclusive := False\<rparr>"

text \<open>
  The data members of \<^verbatim>\<open>class HttpHandler\<close>: one \<^verbatim>\<open>rwlock_\<close>, then \<^verbatim>\<open>post_handler_\<close>
  and \<^verbatim>\<open>get_handler_\<close>.
\<close>

record ('g, 'p) HttpHandler =
  rwlock :: shared_mutex
  post_handler :: "'p handlers"
  get_handler :: "'g handlers"

text \<open>
  The public members defined in the header, each of which passes \<^verbatim>\<open>get_handler_\<close> or
  \<^verbatim>\<open>post_handler_\<close> to one of the three templates.
\<close>

datatype api =
  check_exist_http_get_handler | check_exist_http_post_handler
| switch_http_get_handler | switch_http_post_handler
| update_http_get_handler | update_http_post_handler



text \<open>
  \<^verbatim>\<open>do_check_exist_http_handler\<close> declares
  \<^verbatim>\<open>boost::shared_lock<boost::shared_mutex> rlock(rwlock_)\<close>; \<^verbatim>\<open>do_switch_http_handler\<close>
  and \<^verbatim>\<open>do_update_http_handler\<close> declare
  \<^verbatim>\<open>boost::lock_guard<boost::shared_mutex> wlock(rwlock_)\<close>. The guard is built after
  the path is normalised and released when the function returns.
\<close>

datatype guard = shared_lock | lock_guard

fun guard_of :: "api \<Rightarrow> guard" where
  "guard_of check_exist_http_get_handler = shared_lock"
| "guard_of check_exist_http_post_handler = shared_lock"
| "guard_of switch_http_get_handler = lock_guard"
| "guard_of switch_http_post_handler = lock_guard"
| "guard_of update_http_get_handler = lock_guard"
| "guard_of update_http_post_handler = lock_guard"

fun guard_ctor :: "guard \<Rightarrow> shared_mutex \<Rightarrow> shared_mutex option" where
  "guard_ctor shared_lock m = lock_shared m"
| "guard_ctor lock_guard m = lock m"

fun guard_dtor :: "guard \<Rightarrow> shared_mutex \<Rightarrow> shared_mutex" where
  "guard_dtor shared_lock m = unlock_shared m"
| "guard_dtor lock_guard m = unlock m"

text \<open>
  A thread enters the guarded part of a member function by building its guard on
  \<^verbatim>\<open>rwlock_\<close> (\<open>None\<close>: the thread blocks), and leaves it by destroying the guard.
\<close>

definition enter :: "api \<Rightarrow> ('g, 'p) HttpHandler \<Rightarrow> ('g, 'p) HttpHandler option" where
  "enter f this =
     (case guard_ctor (guard_of f) (rwlock this) of
        None \<Rightarrow> None
      | Some m \<Rightarrow> Some (this\<lparr>rwlock := m\<rparr>))"

definition leave :: "api \<Rightarrow> ('g, 'p) HttpHandler \<Rightarrow> ('g, 'p) HttpHandler" where
  "leave f this = this\<lparr>rwlock := guard_dtor (guard_of f) (rwlock this)\<rparr>"

subsection \<open>find and register\<close>

text \<open>
  Modelled from the spec: \<^verbatim>\<open>find_http_get_handler\<close> and \<^verbatim>\<open>find_http_post_handler\<close>
  are declared in the header, their bodies are in no source file at hand. The
  specification (4.2, 4.4): the raw URI is normalised; "entries tested in registration
  order; first enabled entry whose matcher accepts the normalized URI wins"; the result
  is the handler handle or NotFound (\<open>None\<close>). The matcher of the compiled expression
  is the parameter \<open>matches\<close>.
\<close>

fun find_http_handler_loop ::
  "(UriRegex \<Rightarrow> string \<Rightarrow> bool) \<Rightarrow> string \<Rightarrow> 'h handlers \<Rightarrow> 'h HttpHandlerObject option" where
  "find_http_handler_loop matches uri [] = None"
| "find_http_handler_loop matches uri (it # rest) =
     (if working (snd it) \<and> matches (fst it) uri then Some (snd it)
      else find_http_handler_loop matches uri rest)"

text \<open>
  Modelled from the spec: the body of \<^verbatim>\<open>find_http_get_handler\<close> (see above); the
  normalisation is \<open>pure_uri_path\<close> of the header.
\<close>

definition find_http_handler ::
  "(UriRegex \<Rightarrow> string \<Rightarrow> bool) \<Rightarrow> string \<Rightarrow> 'h handlers
     \<Rightarrow> error + 'h HttpHandlerObject option" where
  "find_http_handler matches uri handlers =
     (case pure_uri_path uri of
        Inl e \<Rightarrow> Inl e
      | Inr u \<Rightarrow> Inr (find_http_handler_loop matches u handlers))"

text \<open>
  Modelled from the spec: the results of \<^verbatim>\<open>register_http_get_handler\<close> and
  \<^verbatim>\<open>register_http_post_handler\<close>, whose bodies are in no source file at hand (4.2:
  "register(pattern, handler, immutable) -> {Ok, DuplicatePattern}").
\<close>

datatype register_result = Ok | DuplicatePattern

text \<open>
  Modelled from the spec: the body of \<^verbatim>\<open>register_http_get_handler\<close> and
  \<^verbatim>\<open>register_http_post_handler\<close>. The specification (4.1, 4.2): the normalised
  pattern is the registration key; "appended at the end, which is the lowest priority;
  rejects duplicate pattern text". The record is built by the constructor of the header.
\<close>

definition register_http_handler ::
  "string \<Rightarrow> 'h \<Rightarrow> bool \<Rightarrow> 'h handlers \<Rightarrow> error + (register_result \<times> 'h handlers)" where
  "register_http_handler uri_r t is_built_in handlers =
     (case pure_uri_path uri_r of
        Inl e \<Rightarrow> Inl e
      | Inr uri \<Rightarrow>
          if do_check_exist_loop uri handlers then Inr (DuplicatePattern, handlers)
          else Inr (Ok, handlers @ [(UriRegex uri, new_HttpHandlerObject t is_built_in)]))"

section \<open>Properties\<close>

text \<open>The equations of the two loops are unfolded by hand, one round at a time.\<close>

declare pure_uri_path_loop.simps [simp del]
declare do_update_wait.simps [simp del]

subsection \<open>Path normalisation\<close>

lemma to_lower_idem: "to_lower (to_lower c) = to_lower c"
  by (simp add: to_lower_def Let_def)

lemma is_space_to_lower: "is_space (to_lower c) = is_space c"
  by (auto simp add: to_lower_def is_space_def Let_def)

lemma to_lower_copy_fixed: "\<forall>c \<in> set s. to_lower c = c \<Longrightarrow> to_lower_copy s = s"
  by (simp add: to_lower_copy_def map_idI)

lemma set_trim_copy: "set (trim_copy s) \<subseteq> set s"
proof -
  have "set (trim_copy s) \<subseteq> set (rev (dropWhile is_space (rev s)))"
    unfolding trim_copy_def by (rule set_dropWhileD[THEN subsetI])
  also have "\<dots> \<subseteq> set s"
    using set_dropWhileD[of _ is_space "rev s"] by auto
  finally show ?thesis .
qed

lemma trim_copy_fixed:
  assumes "y \<noteq> []" "\<not> is_space (hd y)" "\<not> is_space (last y)"
  shows "trim_copy y = y"
proof -
  have "dropWhile is_space (rev y) = rev y"
    using assms by (cases "rev y") (auto simp: last_rev hd_rev)
  moreover have "dropWhile is_space y = y"
    using assms by (cases y) auto
  ultimately show ?thesis by (simp add: trim_copy_def)
qed

lemma hd_trim_copy: "trim_copy s \<noteq> [] \<Longrightarrow> \<not> is_space (hd (trim_copy s))"
  unfolding trim_copy_def by (rule hd_dropWhile)

lemma trim_copy_empty_iff: "trim_copy s = [] \<longleftrightarrow> (\<forall>c \<in> set s. is_space c)"
proof -
  have "trim_copy s = [] \<longleftrightarrow> (\<forall>c \<in> set (dropWhile is_space (rev s)). is_space c)"
    by (simp add: trim_copy_def dropWhile_eq_Nil_conv)
  also have "\<dots> \<longleftrightarrow> dropWhile is_space (rev s) = []"
    by (metis hd_dropWhile hd_in_set empty_iff empty_set)
  also have "\<dots> \<longleftrightarrow> (\<forall>c \<in> set s. is_space c)"
    by (simp add: dropWhile_eq_Nil_conv)
  finally show ?thesis .
qed

lemma string_at_last:
  "uri \<noteq> [] \<Longrightarrow> string_at uri (size_minus_one (length uri)) = Inr (last uri)"
  by (simp add: string_at_def size_minus_one_def last_conv_nth)

lemma pure_uri_path_loop_empty: "pure_uri_path_loop [] = Inl OutOfBounds"
  by (subst pure_uri_path_loop.simps)
    (simp add: string_at_def size_minus_one_def SIZE_MAX_def)

lemma pure_uri_path_loop_strip:
  "last uri = CHR ''/'' \<Longrightarrow> length uri > 1 \<Longrightarrow>
     pure_uri_path_loop uri = pure_uri_path_loop (take (length uri - 1) uri)"
proof -
  assume slash: "last uri = CHR ''/''" and long: "length uri > 1"
  then have "uri \<noteq> []" by auto
  then have "string_at uri (size_minus_one (length uri)) = Inr (last uri)"
    by (rule string_at_last)
  with slash long show ?thesis
    by (subst pure_uri_path_loop.simps) simp
qed

lemma pure_uri_path_loop_stop:
  "uri \<noteq> [] \<Longrightarrow> \<not> (last uri = CHR ''/'' \<and> length uri > 1) \<Longrightarrow>
     pure_uri_path_loop uri = Inr uri"
  by (subst pure_uri_path_loop.simps) (auto simp add: string_at_last)

text \<open>
  What the loop returns is not empty, is a prefix of what it was given, and is left
  alone by the loop.
\<close>

lemma pure_uri_path_loop_result:
  "pure_uri_path_loop u = Inr y \<Longrightarrow>
     y \<noteq> [] \<and> (\<exists>n. y = take n u) \<and> pure_uri_path_loop y = Inr y"
proof (induction u rule: pure_uri_path_loop.induct)
  case (1 uri)
  show ?case
  proof (cases "uri = []")
    case True
    with "1.prems" show ?thesis
      by (simp add: pure_uri_path_loop_empty)
  next
    case False
    then have at: "string_at uri (size_minus_one (length uri)) = Inr (last uri)"
      by (rule string_at_last)
    show ?thesis
    proof (cases "last uri = CHR ''/'' \<and> length uri > 1")
      case True
      with "1.prems" have again: "pure_uri_path_loop (take (length uri - 1) uri) = Inr y"
        by (simp add: pure_uri_path_loop_strip)
      from "1.IH"[OF at _ again] True
      have "y \<noteq> [] \<and> (\<exists>n. y = take n (take (length uri - 1) uri))
          \<and> pure_uri_path_loop y = Inr y"
        by simp
      then show ?thesis by (metis take_take)
    next
      case stop: False
      with False "1.prems" have "y = uri" by (simp add: pure_uri_path_loop_stop)
      with False "1.prems" show ?thesis by (metis take_all order_refl)
    qed
  qed
qed

lemma pure_uri_path_loop_defined: "u \<noteq> [] \<Longrightarrow> \<exists>y. pure_uri_path_loop u = Inr y"
proof (induction u rule: pure_uri_path_loop.induct)
  case (1 uri)
  then have at: "string_at uri (size_minus_one (length uri)) = Inr (last uri)"
    by (simp add: string_at_last)
  show ?case
  proof (cases "last uri = CHR ''/'' \<and> length uri > 1")
    case True
    then have "take (length uri - 1) uri \<noteq> []" by auto
    from "1.IH"[OF at _ this] True show ?thesis
      by (simp add: pure_uri_path_loop_strip)
  next
    case False
    with "1.prems" show ?thesis by (simp add: pure_uri_path_loop_stop)
  qed
qed

lemma pure_uri_path_fixed:
  assumes "pure_uri_path x = Inr y"
  shows "y \<noteq> []" and "\<not> is_space (last y) \<Longrightarrow> pure_uri_path y = Inr y"
proof -
  let ?t = "trim_copy (to_lower_copy x)"
  from assms have loop: "pure_uri_path_loop ?t = Inr y"
    by (simp add: pure_uri_path_def)
  from pure_uri_path_loop_result[OF loop] obtain n where
    ne: "y \<noteq> []" and y: "y = take n ?t" and stable: "pure_uri_path_loop y = Inr y"
    by blast
  show "y \<noteq> []" by (rule ne)
  assume no_space: "\<not> is_space (last y)"
  have "set y \<subseteq> set (to_lower_copy x)"
    using y set_trim_copy[of "to_lower_copy x"] set_take_subset[of n ?t] by auto
  then have "\<forall>c \<in> set y. to_lower c = c"
    by (auto simp: to_lower_copy_def to_lower_idem)
  then have low: "to_lower_copy y = y" by (rule to_lower_copy_fixed)
  from ne y have tne: "?t \<noteq> []" by auto
  from ne y have "hd y = hd ?t" by (metis hd_take take_eq_Nil not_gr_zero)
  with hd_trim_copy[OF tne] have "\<not> is_space (hd y)" by simp
  with ne no_space have "trim_copy y = y" by (simp add: trim_copy_fixed)
  with low stable show "pure_uri_path y = Inr y" by (simp add: pure_uri_path_def)
qed

text \<open>The inputs on which the loop condition reads out of bounds: white space only.\<close>

lemma pure_uri_path_error_iff:
  "pure_uri_path x = Inl e \<longleftrightarrow> e = OutOfBounds \<and> (\<forall>c \<in> set x. is_space c)"
proof -
  let ?t = "trim_copy (to_lower_copy x)"
  have empty: "?t = [] \<longleftrightarrow> (\<forall>c \<in> set x. is_space c)"
    by (simp add: trim_copy_empty_iff to_lower_copy_def is_space_to_lower)
  show ?thesis
  proof (cases "?t = []")
    case True
    then have "pure_uri_path x = Inl OutOfBounds"
      by (simp add: pure_uri_path_def pure_uri_path_loop_empty)
    with True empty show ?thesis by auto
  next
    case False
    from pure_uri_path_loop_defined[OF this] False empty show ?thesis
      by (auto simp: pure_uri_path_def)
  qed
qed

text \<open>
  C4, as amended. Normalisation is idempotent at every input that it accepts and whose
  normal form does not end in white space: \<open>normalize (normalize x) = normalize x\<close>.
  The normal form is never empty, and \<open>normalize "/Foo/" = normalize "/foo" = "/foo"\<close>,
  \<open>normalize "/" = "/"\<close>.
\<close>

theorem pure_uri_path_idempotent:
  "(pure_uri_path x = Inr y \<longrightarrow>
      y \<noteq> [] \<and> (\<not> is_space (last y) \<longrightarrow> pure_uri_path y = Inr y))
   \<and> pure_uri_path ''/Foo/'' = Inr ''/foo''
   \<and> pure_uri_path ''/foo'' = Inr ''/foo''
   \<and> pure_uri_path ''/'' = Inr ''/''"
proof (intro conjI impI)
  assume "pure_uri_path x = Inr y"
  then show "y \<noteq> []" by (rule pure_uri_path_fixed(1))
next
  assume "pure_uri_path x = Inr y" and "\<not> is_space (last y)"
  then show "pure_uri_path y = Inr y" by (rule pure_uri_path_fixed(2))
next
  show "pure_uri_path ''/Foo/'' = Inr ''/foo''" by code_simp
next
  show "pure_uri_path ''/foo'' = Inr ''/foo''" by code_simp
next
  show "pure_uri_path ''/'' = Inr ''/''" by code_simp
qed

theorem pure_uri_path_idempotent_witness:
  "pure_uri_path '' /Status/Page// '' = Inr ''/status/page''
   \<and> \<not> is_space (last ''/status/page'')
   \<and> ''/status/page'' \<noteq> []
   \<and> pure_uri_path ''/status/page'' = Inr ''/status/page''"
proof -
  have norm: "pure_uri_path '' /Status/Page// '' = Inr ''/status/page''"
    by code_simp
  have no_space: "\<not> is_space (last ''/status/page'')"
    by code_simp
  from pure_uri_path_idempotent[of "'' /Status/Page// ''" "''/status/page''"] norm no_space
  have "pure_uri_path ''/status/page'' = Inr ''/status/page''"
    by blast
  with norm no_space show ?thesis by simp
qed

text \<open>
  C4 as stated fails: a space in front of the trailing slash is uncovered by the loop,
  after the trimming, and is trimmed by the second normalisation.
\<close>

theorem pure_uri_path_not_idempotent:
  "pure_uri_path ''a /'' = Inr ''a ''
   \<and> pure_uri_path ''a '' = Inr ''a''
   \<and> pure_uri_path ''a '' \<noteq> pure_uri_path ''a /''"
proof -
  have first: "pure_uri_path ''a /'' = Inr ''a ''" by code_simp
  have second: "pure_uri_path ''a '' = Inr ''a''" by code_simp
  from first second show ?thesis by simp
qed

text \<open>
  C10: on the empty string, and on a string of white space, \<^verbatim>\<open>uri.size()-1\<close> is
  \<^verbatim>\<open>SIZE_MAX\<close> and the loop condition reads \<^verbatim>\<open>uri[SIZE_MAX]\<close> of an empty string,
  before it tests the size.
\<close>

theorem pure_uri_path_empty_out_of_bounds:
  "size_minus_one (length (trim_copy (to_lower_copy ''''))) = SIZE_MAX
   \<and> string_at (trim_copy (to_lower_copy '''')) SIZE_MAX = Inl OutOfBounds
   \<and> pure_uri_path '''' = Inl OutOfBounds
   \<and> pure_uri_path ''  '' = Inl OutOfBounds"
  by (simp add: pure_uri_path_error_iff is_space_def trim_copy_def to_lower_copy_def
      size_minus_one_def string_at_def SIZE_MAX_def)

subsection \<open>The entry that a scan by pattern text stops at\<close>

text \<open>
  The three scans of the header stop at the first entry whose text is \<open>uri\<close>: position
  \<open>i\<close>, with no entry of that text before it.
\<close>

lemma do_check_exist_loop_iff:
  "do_check_exist_loop uri hs \<longleftrightarrow> (\<exists>e \<in> set hs. str (fst e) = uri)"
  by (induction hs) auto

lemma do_switch_loop_at:
  "i < length hs \<Longrightarrow> str (fst (hs ! i)) = uri \<Longrightarrow> \<forall>j<i. str (fst (hs ! j)) \<noteq> uri \<Longrightarrow>
     do_switch_loop uri on hs =
       (if working (snd (hs ! i)) = on then (- 1, hs)
        else (0, hs[i := (fst (hs ! i), (snd (hs ! i))\<lparr>working := on\<rparr>)]))"
proof (induction hs arbitrary: i)
  case Nil
  then show ?case by simp
next
  case (Cons it rest)
  show ?case
  proof (cases i)
    case 0
    with Cons.prems show ?thesis by simp
  next
    case (Suc i')
    from Cons.prems(3) Suc have head: "str (fst it) \<noteq> uri" by auto
    from Cons.prems Suc have here: "i' < length rest" "str (fst (rest ! i')) = uri"
      by auto
    from Cons.prems(3) Suc have before: "\<forall>j<i'. str (fst (rest ! j)) \<noteq> uri"
      by auto
    from Cons.IH[OF here before] head Suc show ?thesis by simp
  qed
qed

lemma do_switch_loop_missing:
  "\<forall>e \<in> set hs. str (fst e) \<noteq> uri \<Longrightarrow> do_switch_loop uri on hs = (- 2, hs)"
  by (induction hs) auto

lemma do_update_lookup_at:
  "i < length hs \<Longrightarrow> str (fst (hs ! i)) = uri \<Longrightarrow> \<forall>j<i. str (fst (hs ! j)) \<noteq> uri \<Longrightarrow>
     do_update_lookup uri hs = Some (snd (hs ! i))"
proof (induction hs arbitrary: i)
  case Nil
  then show ?case by simp
next
  case (Cons it rest)
  show ?case
  proof (cases i)
    case 0
    with Cons.prems show ?thesis by simp
  next
    case (Suc i')
    from Cons.prems(3) Suc have head: "str (fst it) \<noteq> uri" by auto
    from Cons.prems Suc have here: "i' < length rest" "str (fst (rest ! i')) = uri"
      by auto
    from Cons.prems(3) Suc have before: "\<forall>j<i'. str (fst (rest ! j)) \<noteq> uri"
      by auto
    from Cons.IH[OF here before] head Suc show ?thesis by simp
  qed
qed

lemma do_update_lookup_missing:
  "\<forall>e \<in> set hs. str (fst e) \<noteq> uri \<Longrightarrow> do_update_lookup uri hs = None"
  by (induction hs) auto

subsection \<open>Switching a handler on and off\<close>

text \<open>
  C6: let \<open>p\<close> be registered (its normal form \<open>uri\<close> is the text of the entry at position
  \<open>i\<close>, the first with that text) and its record disabled. Then \<open>set_enabled(p, true)\<close>
  returns 0 (Ok) and sets the flag of that record, changing nothing else in the table;
  the same call on the table so obtained returns \<open>-1\<close> (AlreadyInState) and changes
  nothing.
\<close>

theorem do_switch_on_twice:
  assumes "pure_uri_path p = Inr uri"
    and "i < length handlers"
    and "str (fst (handlers ! i)) = uri"
    and "\<forall>j<i. str (fst (handlers ! j)) \<noteq> uri"
    and "\<not> working (snd (handlers ! i))"
  shows "do_switch_http_handler p True handlers =
           Inr (0, handlers[i := (fst (handlers ! i), (snd (handlers ! i))\<lparr>working := True\<rparr>)])
       \<and> do_switch_http_handler p True
           (handlers[i := (fst (handlers ! i), (snd (handlers ! i))\<lparr>working := True\<rparr>)]) =
           Inr (- 1, handlers[i := (fst (handlers ! i), (snd (handlers ! i))\<lparr>working := True\<rparr>)])"
proof -
  let ?hs' = "handlers[i := (fst (handlers ! i), (snd (handlers ! i))\<lparr>working := True\<rparr>)]"
  have first: "do_switch_loop uri True handlers = (0, ?hs')"
    using do_switch_loop_at[OF assms(2,3,4), of True] assms(5) by simp
  have len: "i < length ?hs'" using assms(2) by simp
  have text_i: "str (fst (?hs' ! i)) = uri" using assms(2,3) by simp
  have before: "\<forall>j<i. str (fst (?hs' ! j)) \<noteq> uri" using assms(2,4) by simp
  have on: "working (snd (?hs' ! i))" using assms(2) by simp
  have second: "do_switch_loop uri True ?hs' = (- 1, ?hs')"
    using do_switch_loop_at[OF len text_i before, of True] on by simp
  from first second assms(1) show ?thesis
    by (simp add: do_switch_http_handler_def)
qed

theorem do_switch_on_twice_witness:
  "do_switch_http_handler ''/Status/'' True
     [(UriRegex ''/index'', new_HttpHandlerObject ''index'' True),
      (UriRegex ''/status'', (new_HttpHandlerObject ''status'' False)\<lparr>working := False\<rparr>)] =
     Inr (0, [(UriRegex ''/index'', new_HttpHandlerObject ''index'' True),
              (UriRegex ''/status'', new_HttpHandlerObject ''status'' False)])
   \<and> do_switch_http_handler ''/Status/'' True
     [(UriRegex ''/index'', new_HttpHandlerObject ''index'' True),
      (UriRegex ''/status'', new_HttpHandlerObject ''status'' False)] =
     Inr (- 1, [(UriRegex ''/index'', new_HttpHandlerObject ''index'' True),
                (UriRegex ''/status'', new_HttpHandlerObject ''status'' False)])"
proof -
  let ?hs = "[(UriRegex ''/index'', new_HttpHandlerObject ''index'' True),
      (UriRegex ''/status'', (new_HttpHandlerObject ''status'' False)\<lparr>working := False\<rparr>)]"
  have norm: "pure_uri_path ''/Status/'' = Inr ''/status''" by code_simp
  have len: "(1::nat) < length ?hs" by simp
  have text_i: "str (fst (?hs ! 1)) = ''/status''" by simp
  have before: "\<forall>j<(1::nat). str (fst (?hs ! j)) \<noteq> ''/status''" by simp
  have off: "\<not> working (snd (?hs ! 1))" by simp
  from do_switch_on_twice[OF norm len text_i before off] show ?thesis
    by (simp add: new_HttpHandlerObject_def)
qed

subsection \<open>Replacing a handler\<close>

text \<open>
  While every poll finds the count above 2, the loop sleeps 9 times and makes 10 polls;
  the test after the loop is poll number 10, counted from 0.
\<close>

lemma do_update_wait_busy:
  assumes "\<forall>k\<le>10. use_count k > 2"
  shows "do_update_wait use_count 0 10 0 = (10, 9)"
proof -
  have busy: "use_count k > 2" if "k \<le> 10" for k
    using assms that by blast
  have round: "do_update_wait use_count k r s = do_update_wait use_count (Suc k) (r - 1) (Suc s)"
    if "k \<le> 10" "r - 1 > 0" for k r s
    using busy[OF that(1)] that(2) by (subst do_update_wait.simps) simp
  have last_round: "do_update_wait use_count k 1 s = (Suc k, s)" for k s
    by (subst do_update_wait.simps) simp
  have "do_update_wait use_count 0 10 0 = do_update_wait use_count 9 1 9"
    by (simp add: round eval_nat_numeral)
  then show ?thesis
    by (simp add: last_round)
qed

text \<open>When the first poll finds the count at 2 or below, the loop ends without a sleep.\<close>

lemma do_update_wait_drained:
  "use_count 0 \<le> 2 \<Longrightarrow> do_update_wait use_count 0 10 0 = (1, 0)"
  by (subst do_update_wait.simps) simp

text \<open>
  C7: when the entry of the pattern holds a built-in record, replace returns \<open>-1\<close>
  (Immutable) whatever the reference count is, without a single \<^verbatim>\<open>usleep\<close>, and the
  table is the one it was given.
\<close>

theorem do_update_built_in:
  assumes "pure_uri_path uri_r = Inr uri"
    and "i < length handlers"
    and "str (fst (handlers ! i)) = uri"
    and "\<forall>j<i. str (fst (handlers ! j)) \<noteq> uri"
    and "built_in (snd (handlers ! i))"
  shows "do_update_http_handler use_count uri_r on handlers = Inr (- 1, handlers, 0)"
proof -
  have "do_update_lookup uri handlers = Some (snd (handlers ! i))"
    using assms(2,3,4) by (rule do_update_lookup_at)
  with assms(1,5) show ?thesis
    by (simp add: do_update_http_handler_def)
qed

theorem do_update_built_in_witness:
  "do_update_http_handler (\<lambda>k. 5) ''/Status/'' True
     [(UriRegex ''/index'', new_HttpHandlerObject ''index'' False),
      (UriRegex ''/status'', new_HttpHandlerObject ''status'' True)] =
   Inr (- 1, [(UriRegex ''/index'', new_HttpHandlerObject ''index'' False),
              (UriRegex ''/status'', new_HttpHandlerObject ''status'' True)], 0)"
proof -
  let ?hs = "[(UriRegex ''/index'', new_HttpHandlerObject ''index'' False),
      (UriRegex ''/status'', new_HttpHandlerObject ''status'' True)]"
  have norm: "pure_uri_path ''/Status/'' = Inr ''/status''" by code_simp
  have len: "(1::nat) < length ?hs" by simp
  have text_i: "str (fst (?hs ! 1)) = ''/status''" by simp
  have before: "\<forall>j<(1::nat). str (fst (?hs ! j)) \<noteq> ''/status''" by simp
  have fixed: "built_in (snd (?hs ! 1))" by (simp add: new_HttpHandlerObject_def)
  from do_update_built_in[OF norm len text_i before fixed] show ?thesis .
qed

text \<open>
  C3: when the entry of the pattern holds a record that is not built in, and every poll
  of the reference count (the 10 of the loop and the one after it) finds it above 2,
  replace sleeps 9 times, returns \<open>-2\<close> (Busy) and leaves the table as it was: the old
  entry is at its position, with its flag and its handler.
\<close>

theorem do_update_busy:
  assumes "pure_uri_path uri_r = Inr uri"
    and "i < length handlers"
    and "str (fst (handlers ! i)) = uri"
    and "\<forall>j<i. str (fst (handlers ! j)) \<noteq> uri"
    and "\<not> built_in (snd (handlers ! i))"
    and "\<forall>k\<le>10. use_count k > 2"
  shows "do_update_http_handler use_count uri_r on handlers = Inr (- 2, handlers, 9)"
proof -
  have found: "do_update_lookup uri handlers = Some (snd (handlers ! i))"
    using assms(2,3,4) by (rule do_update_lookup_at)
  have wait: "do_update_wait use_count 0 10 0 = (10, 9)"
    using assms(6) by (rule do_update_wait_busy)
  have "use_count 10 > 2" using assms(6) by simp
  with found wait assms(1,5) show ?thesis
    by (simp add: do_update_http_handler_def)
qed

theorem do_update_busy_witness:
  "do_update_http_handler (\<lambda>k. 3) ''/Status/'' True
     [(UriRegex ''/index'', new_HttpHandlerObject ''index'' False),
      (UriRegex ''/status'', new_HttpHandlerObject ''status'' False)] =
   Inr (- 2, [(UriRegex ''/index'', new_HttpHandlerObject ''index'' False),
              (UriRegex ''/status'', new_HttpHandlerObject ''status'' False)], 9)"
proof -
  let ?hs = "[(UriRegex ''/index'', new_HttpHandlerObject ''index'' False),
      (UriRegex ''/status'', new_HttpHandlerObject ''status'' False)]"
  have norm: "pure_uri_path ''/Status/'' = Inr ''/status''" by code_simp
  have len: "(1::nat) < length ?hs" by simp
  have text_i: "str (fst (?hs ! 1)) = ''/status''" by simp
  have before: "\<forall>j<(1::nat). str (fst (?hs ! j)) \<noteq> ''/status''" by simp
  have open_rec: "\<not> built_in (snd (?hs ! 1))" by (simp add: new_HttpHandlerObject_def)
  have busy: "\<forall>k\<le>10. (\<lambda>k::nat. 3::int) k > 2" by simp
  from do_update_busy[OF norm len text_i before open_rec busy] show ?thesis .
qed

text \<open>
  C1: a table with \<open>/a\<close> before \<open>/b\<close>, neither built in, and a reference count of 2 at
  every poll. Replacing \<open>/b\<close> erases the entry of \<open>/a\<close>, leaves the entry of \<open>/b\<close> with
  its old handler, installs nothing and returns \<open>-2\<close>. Replacing \<open>/a\<close>, the first entry,
  erases it, installs nothing and returns \<open>-2\<close> as well.
\<close>

theorem do_update_drained_erases_first:
  "do_update_http_handler (\<lambda>k. 2) ''/b'' True
     [(UriRegex ''/a'', new_HttpHandlerObject ''old a'' False),
      (UriRegex ''/b'', new_HttpHandlerObject ''old b'' False)] =
   Inr (- 2, [(UriRegex ''/b'', new_HttpHandlerObject ''old b'' False)], 0)
   \<and> do_update_http_handler (\<lambda>k. 2) ''/a'' True
     [(UriRegex ''/a'', new_HttpHandlerObject ''old a'' False),
      (UriRegex ''/b'', new_HttpHandlerObject ''old b'' False)] =
   Inr (- 2, [(UriRegex ''/b'', new_HttpHandlerObject ''old b'' False)], 0)"
proof -
  have norm_a: "pure_uri_path ''/a'' = Inr ''/a''" by code_simp
  have norm_b: "pure_uri_path ''/b'' = Inr ''/b''" by code_simp
  have wait: "do_update_wait (\<lambda>k. 2) 0 10 0 = (1, 0)"
    by (simp add: do_update_wait_drained)
  from norm_a norm_b wait show ?thesis
    by (simp add: do_update_http_handler_def new_HttpHandlerObject_def erase_def)
qed

text \<open>
  C2: replacing a pattern that no entry has. The search leaves \<^verbatim>\<open>p_handler_object\<close>
  empty, and the next statement reads \<^verbatim>\<open>p_handler_object->built_in_\<close>: the call has
  no return value, on the empty table and on a table with other entries.
\<close>

theorem do_update_missing_null_dereference:
  "do_update_http_handler use_count ''/missing'' on [] = Inl NullDereference
   \<and> do_update_http_handler use_count ''/missing'' on
       [(UriRegex ''/a'', new_HttpHandlerObject ''a'' False)] = Inl NullDereference"
proof -
  have norm: "pure_uri_path ''/missing'' = Inr ''/missing''" by code_simp
  then show ?thesis
    by (simp add: do_update_http_handler_def)
qed

text \<open>The same on every table: no entry with the text, no return value.\<close>

lemma do_update_missing:
  "pure_uri_path uri_r = Inr uri \<Longrightarrow> \<forall>e \<in> set handlers. str (fst e) \<noteq> uri \<Longrightarrow>
     do_update_http_handler use_count uri_r on handlers = Inl NullDereference"
  by (simp add: do_update_http_handler_def do_update_lookup_missing)

subsection \<open>Finding a handler\<close>








subsection \<open>A record is enabled from its registration\<close>

lemma find_http_handler_loop_skip:
  "\<forall>e \<in> set hs. \<not> (working (snd e) \<and> m (fst e) u) \<Longrightarrow>
     find_http_handler_loop m u (hs @ later) = find_http_handler_loop m u later"
  by (induction hs) auto

lemma register_http_handler_Ok:
  assumes "register_http_handler p t b hs = Inr (Ok, hs')"
    and "pure_uri_path p = Inr uri"
  shows "hs' = hs @ [(UriRegex uri, new_HttpHandlerObject t b)]"
    and "\<forall>e \<in> set hs. str (fst e) \<noteq> uri"
  using assms
  by (auto simp: register_http_handler_def do_check_exist_loop_iff split: if_splits)

lemma do_switch_loop_new_record:
  assumes "\<forall>e \<in> set earlier. str (fst e) \<noteq> uri"
  shows "do_switch_loop uri True (earlier @ (UriRegex uri, new_HttpHandlerObject t b) # later) =
     (- 1, earlier @ (UriRegex uri, new_HttpHandlerObject t b) # later)"
proof -
  let ?hs = "earlier @ (UriRegex uri, new_HttpHandlerObject t b) # later"
  have len: "length earlier < length ?hs" by simp
  have text_i: "str (fst (?hs ! length earlier)) = uri" by simp
  have before: "\<forall>j<length earlier. str (fst (?hs ! j)) \<noteq> uri"
    using assms by (simp add: nth_append)
  from do_switch_loop_at[OF len text_i before, of True] show ?thesis
    by (simp add: new_HttpHandlerObject_def)
qed

text \<open>
  C9: a record built by the constructor is enabled, with both counters 0. So a handler
  can be dispatched from its registration on, with no enabling step: after
  \<open>register(p, t, b)\<close> has returned Ok, find returns the new record for every URI whose
  normal form the matcher of \<open>p\<close> accepts and no enabled entry registered before
  accepts. And the first \<open>set_enabled(p, true)\<close> finds the flag set already: it returns
  \<open>-1\<close> and changes nothing, after the registration, and on every table in which the
  entry of \<open>p\<close> holds a new record.
\<close>

theorem new_record_is_enabled:
  "working (new_HttpHandlerObject t b)
   \<and> success_cnt (new_HttpHandlerObject t b) = 0
   \<and> fail_cnt (new_HttpHandlerObject t b) = 0
   \<and> built_in (new_HttpHandlerObject t b) = b
   \<and> handler (new_HttpHandlerObject t b) = t
   \<and> (pure_uri_path p = Inr uri \<and> (\<forall>e \<in> set earlier. str (fst e) \<noteq> uri) \<longrightarrow>
        do_switch_http_handler p True
          (earlier @ (UriRegex uri, new_HttpHandlerObject t b) # later) =
        Inr (- 1, earlier @ (UriRegex uri, new_HttpHandlerObject t b) # later))
   \<and> (register_http_handler p t b hs = Inr (Ok, hs') \<and> pure_uri_path p = Inr uri \<longrightarrow>
        do_switch_http_handler p True hs' = Inr (- 1, hs')
        \<and> (\<forall>x u. pure_uri_path x = Inr u \<and> m (UriRegex uri) u
              \<and> (\<forall>e \<in> set hs. \<not> (working (snd e) \<and> m (fst e) u)) \<longrightarrow>
              find_http_handler m x hs' = Inr (Some (new_HttpHandlerObject t b))))"
proof -
  have f1: "working (new_HttpHandlerObject t b)"
    by (simp add: new_HttpHandlerObject_def)
  have f2: "success_cnt (new_HttpHandlerObject t b) = 0"
    by (simp add: new_HttpHandlerObject_def)
  have f3: "fail_cnt (new_HttpHandlerObject t b) = 0"
    by (simp add: new_HttpHandlerObject_def)
  have f4: "built_in (new_HttpHandlerObject t b) = b"
    by (simp add: new_HttpHandlerObject_def)
  have f5: "handler (new_HttpHandlerObject t b) = t"
    by (simp add: new_HttpHandlerObject_def)
  have switch: "do_switch_http_handler p True
          (pre @ (UriRegex uri, new_HttpHandlerObject t b) # post) =
        Inr (- 1, pre @ (UriRegex uri, new_HttpHandlerObject t b) # post)"
    if "pure_uri_path p = Inr uri" "\<forall>e \<in> set pre. str (fst e) \<noteq> uri" for pre post
    using that by (simp add: do_switch_http_handler_def do_switch_loop_new_record)
  have placed: "pure_uri_path p = Inr uri \<and> (\<forall>e \<in> set earlier. str (fst e) \<noteq> uri) \<longrightarrow>
        do_switch_http_handler p True
          (earlier @ (UriRegex uri, new_HttpHandlerObject t b) # later) =
        Inr (- 1, earlier @ (UriRegex uri, new_HttpHandlerObject t b) # later)"
  proof
    assume "pure_uri_path p = Inr uri \<and> (\<forall>e \<in> set earlier. str (fst e) \<noteq> uri)"
    then show "do_switch_http_handler p True
          (earlier @ (UriRegex uri, new_HttpHandlerObject t b) # later) =
        Inr (- 1, earlier @ (UriRegex uri, new_HttpHandlerObject t b) # later)"
      by (intro switch) simp_all
  qed
  have registered: "register_http_handler p t b hs = Inr (Ok, hs') \<and> pure_uri_path p = Inr uri \<longrightarrow>
        do_switch_http_handler p True hs' = Inr (- 1, hs')
        \<and> (\<forall>x u. pure_uri_path x = Inr u \<and> m (UriRegex uri) u
              \<and> (\<forall>e \<in> set hs. \<not> (working (snd e) \<and> m (fst e) u)) \<longrightarrow>
              find_http_handler m x hs' = Inr (Some (new_HttpHandlerObject t b)))"
  proof (intro impI conjI allI)
    assume both: "register_http_handler p t b hs = Inr (Ok, hs') \<and> pure_uri_path p = Inr uri"
    then have reg: "register_http_handler p t b hs = Inr (Ok, hs')"
      and norm: "pure_uri_path p = Inr uri"
      by simp_all
    note shape = register_http_handler_Ok[OF reg norm]
    from switch[OF norm shape(2), of "[]"] shape(1)
    show "do_switch_http_handler p True hs' = Inr (- 1, hs')" by simp
  next
    fix x u
    assume both: "register_http_handler p t b hs = Inr (Ok, hs') \<and> pure_uri_path p = Inr uri"
      and accept: "pure_uri_path x = Inr u \<and> m (UriRegex uri) u
        \<and> (\<forall>e \<in> set hs. \<not> (working (snd e) \<and> m (fst e) u))"
    from both have reg: "register_http_handler p t b hs = Inr (Ok, hs')"
      and norm: "pure_uri_path p = Inr uri"
      by simp_all
    note shape = register_http_handler_Ok[OF reg norm]
    from accept have none_before: "\<forall>e \<in> set hs. \<not> (working (snd e) \<and> m (fst e) u)"
      by simp
    have "find_http_handler_loop m u hs' =
        find_http_handler_loop m u [(UriRegex uri, new_HttpHandlerObject t b)]"
      unfolding shape(1) using none_before by (rule find_http_handler_loop_skip)
    also from accept have "\<dots> = Some (new_HttpHandlerObject t b)"
      by (simp add: new_HttpHandlerObject_def)
    finally show "find_http_handler m x hs' = Inr (Some (new_HttpHandlerObject t b))"
      using accept by (simp add: find_http_handler_def)
  qed
  show ?thesis
    by (intro conjI) (fact f1, fact f2, fact f3, fact f4, fact f5, fact placed, fact registered)
qed

text \<open>
  \<open>/Status/\<close> is registered after \<open>/index\<close>, with a matcher that accepts a URI starting
  with the pattern text: \<open>/STATUS/Page/\<close> is dispatched to the new record at once, and
  switching \<open>/Status/\<close> on returns \<open>-1\<close>.
\<close>

theorem new_record_is_enabled_witness:
  "register_http_handler ''/Status/'' ''status'' False
     [(UriRegex ''/index'', new_HttpHandlerObject ''index'' True)] =
     Inr (Ok, [(UriRegex ''/index'', new_HttpHandlerObject ''index'' True),
               (UriRegex ''/status'', new_HttpHandlerObject ''status'' False)])
   \<and> find_http_handler (\<lambda>r u. take (length (str r)) u = str r) ''/STATUS/Page/''
        [(UriRegex ''/index'', new_HttpHandlerObject ''index'' True),
         (UriRegex ''/status'', new_HttpHandlerObject ''status'' False)] =
      Inr (Some (new_HttpHandlerObject ''status'' False))
   \<and> do_switch_http_handler ''/Status/'' True
        [(UriRegex ''/index'', new_HttpHandlerObject ''index'' True),
         (UriRegex ''/status'', new_HttpHandlerObject ''status'' False)] =
      Inr (- 1, [(UriRegex ''/index'', new_HttpHandlerObject ''index'' True),
                 (UriRegex ''/status'', new_HttpHandlerObject ''status'' False)])
   \<and> do_switch_http_handler ''/Status/'' True
        [(UriRegex ''/index'', new_HttpHandlerObject ''index'' True),
         (UriRegex ''/status'', new_HttpHandlerObject ''status'' False),
         (UriRegex ''/last'', new_HttpHandlerObject ''last'' False)] =
      Inr (- 1, [(UriRegex ''/index'', new_HttpHandlerObject ''index'' True),
                 (UriRegex ''/status'', new_HttpHandlerObject ''status'' False),
                 (UriRegex ''/last'', new_HttpHandlerObject ''last'' False)])"
proof -
  let ?hs = "[(UriRegex ''/index'', new_HttpHandlerObject ''index'' True)]"
  let ?hs' = "[(UriRegex ''/index'', new_HttpHandlerObject ''index'' True),
               (UriRegex ''/status'', new_HttpHandlerObject ''status'' False)]"
  let ?later = "[(UriRegex ''/last'', new_HttpHandlerObject ''last'' False)]"
  let ?m = "\<lambda>(r::UriRegex) (u::string). take (length (str r)) u = str r"
  have norm: "pure_uri_path ''/Status/'' = Inr ''/status''" by code_simp
  have norm_x: "pure_uri_path ''/STATUS/Page/'' = Inr ''/status/page''" by code_simp
  have reg: "register_http_handler ''/Status/'' ''status'' False ?hs = Inr (Ok, ?hs')"
    using norm by (simp add: register_http_handler_def)
  have fresh: "\<forall>e \<in> set ?hs. str (fst e) \<noteq> ''/status''" by simp
  note main = new_record_is_enabled[of "''status''" False "''/Status/''" "''/status''"
      ?hs ?later ?hs ?hs' ?m]
  note placed = main[THEN conjunct2, THEN conjunct2, THEN conjunct2, THEN conjunct2,
      THEN conjunct2, THEN conjunct1, rule_format, OF conjI[OF norm fresh]]
  note registered = main[THEN conjunct2, THEN conjunct2, THEN conjunct2, THEN conjunct2,
      THEN conjunct2, THEN conjunct2, rule_format, OF conjI[OF reg norm]]
  have accept: "pure_uri_path ''/STATUS/Page/'' = Inr ''/status/page''
      \<and> ?m (UriRegex ''/status'') ''/status/page''
      \<and> (\<forall>e \<in> set ?hs. \<not> (working (snd e) \<and> ?m (fst e) ''/status/page''))"
    using norm_x by simp
  have found: "find_http_handler ?m ''/STATUS/Page/'' ?hs' =
      Inr (Some (new_HttpHandlerObject ''status'' False))"
    by (rule registered[THEN conjunct2, rule_format, OF accept])
  from reg found registered[THEN conjunct1] placed show ?thesis by simp
qed

subsection \<open>One lock for both tables\<close>

lemma enter_leave: "enter f this = Some this' \<Longrightarrow> leave f this' = this"
  by (cases "guard_of f")
    (auto simp: enter_def leave_def lock_def lock_shared_def unlock_def unlock_shared_def
      split: if_splits)




end
